theory Spec2Isabelle
  imports Main "HOL-Library.Word"
begin

unbundle bit_operations_syntax

section \<open>Memory-mapped registers\<close>

text \<open>
  libsteel drives four peripherals through structs of \<^verbatim>\<open>volatile uint32_t\<close> fields. Each
  struct is a record of 32-bit words here. Because the fields are volatile, every read
  and every assignment in the C text is one access on the bus, in program order; the
  model keeps them in a log, so that a statement about "the stores a call performs" is
  a statement about that log.

  Two kinds of register are told apart. A register that software configures keeps the
  last word stored to it, and a load returns the field of the record. A status or data
  register that the device drives (BUSY and RDATA of the SPI controller; READY, RDATA and
  RXSTATUS of the UART) returns whatever the device presents at that moment: the \<open>k\<close>-th
  such load of a run returns \<open>ins k\<close>, where \<open>ins\<close> is the input sequence of the run, and
  \<open>tick\<close> counts the loads made so far. The loaded word is written back into the record,
  which therefore shows each register as the processor saw it last. What a device does
  with a word stored to it lies outside the C functions. In the model a store changes the
  field it names and nothing else, except for the SET and CLR registers of the GPIO
  controller, which act on OUT as the specification describes.
\<close>

type_synonym u8 = "8 word"
type_synonym u32 = "32 word"
type_synonym u64 = "64 word"

datatype 'r access = Load 'r u32 | Store 'r u32

fun is_store :: "'r access \<Rightarrow> bool" where
  "is_store (Store r v) = True"
| "is_store (Load r v) = False"

record ('c, 'r) mmio =
  regs :: 'c
  tick :: nat
  bus :: "'r access list"

definition mmio_store ::
  "('r \<Rightarrow> u32 \<Rightarrow> 'c \<Rightarrow> 'c) \<Rightarrow> 'r \<Rightarrow> u32 \<Rightarrow> ('c, 'r) mmio \<Rightarrow> ('c, 'r) mmio" where
  "mmio_store wr r v w = w\<lparr>regs := wr r v (regs w), bus := bus w @ [Store r v]\<rparr>"

definition mmio_load ::
  "('r \<Rightarrow> 'c \<Rightarrow> u32) \<Rightarrow> 'r \<Rightarrow> ('c, 'r) mmio \<Rightarrow> u32 \<times> ('c, 'r) mmio" where
  "mmio_load rd r w = (rd r (regs w), w\<lparr>bus := bus w @ [Load r (rd r (regs w))]\<rparr>)"

definition mmio_poll ::
  "(nat \<Rightarrow> u32) \<Rightarrow> ('r \<Rightarrow> u32 \<Rightarrow> 'c \<Rightarrow> 'c) \<Rightarrow> 'r \<Rightarrow> ('c, 'r) mmio \<Rightarrow> u32 \<times> ('c, 'r) mmio" where
  "mmio_poll ins wr r w =
     (let v = ins (tick w)
      in (v, w\<lparr>regs := wr r v (regs w), tick := Suc (tick w), bus := bus w @ [Load r v]\<rparr>))"

text \<open>
  The accesses a call added to the log, and the register file as an observer of the bus
  sees it after each access of a log.
\<close>

definition issued :: "('c, 'r) mmio \<Rightarrow> ('c, 'r) mmio \<Rightarrow> 'r access list" where
  "issued w w' = drop (length (bus w)) (bus w')"

fun observe :: "('r \<Rightarrow> u32 \<Rightarrow> 'c \<Rightarrow> 'c) \<Rightarrow> 'c \<Rightarrow> 'r access list \<Rightarrow> 'c list" where
  "observe wr c [] = []"
| "observe wr c (Store r v # tr) = wr r v c # observe wr (wr r v c) tr"
| "observe wr c (Load r v # tr) = wr r v c # observe wr (wr r v c) tr"

text \<open>The \<open>n\<close> consecutive loads of a device-driven register \<open>r\<close> that start at tick \<open>k\<close>.\<close>

definition polls :: "'r \<Rightarrow> (nat \<Rightarrow> u32) \<Rightarrow> nat \<Rightarrow> nat \<Rightarrow> 'r access list" where
  "polls r ins k n = map (\<lambda>j. Load r (ins j)) [k ..< k + n]"

text \<open>Every store of a log comes right after the access \<open>a\<close>.\<close>

definition preceded_by :: "'r access \<Rightarrow> 'r access list \<Rightarrow> bool" where
  "preceded_by a tr = (\<forall>i<length tr. is_store (tr ! i) \<longrightarrow> 0 < i \<and> tr ! (i - 1) = a)"

section \<open>MTimer controller\<close>

record MTimerController =
  CR :: u32
  MTIMEL :: u32
  MTIMEH :: u32
  MTIMECMPL :: u32
  MTIMECMPH :: u32

datatype mtimer_reg =
  MTIMER_CR | MTIMER_MTIMEL | MTIMER_MTIMEH | MTIMER_MTIMECMPL | MTIMER_MTIMECMPH

fun mtimer_rd :: "mtimer_reg \<Rightarrow> MTimerController \<Rightarrow> u32" where
  "mtimer_rd MTIMER_CR m = CR m"
| "mtimer_rd MTIMER_MTIMEL m = MTIMEL m"
| "mtimer_rd MTIMER_MTIMEH m = MTIMEH m"
| "mtimer_rd MTIMER_MTIMECMPL m = MTIMECMPL m"
| "mtimer_rd MTIMER_MTIMECMPH m = MTIMECMPH m"

fun mtimer_wr :: "mtimer_reg \<Rightarrow> u32 \<Rightarrow> MTimerController \<Rightarrow> MTimerController" where
  "mtimer_wr MTIMER_CR v m = m\<lparr>CR := v\<rparr>"
| "mtimer_wr MTIMER_MTIMEL v m = m\<lparr>MTIMEL := v\<rparr>"
| "mtimer_wr MTIMER_MTIMEH v m = m\<lparr>MTIMEH := v\<rparr>"
| "mtimer_wr MTIMER_MTIMECMPL v m = m\<lparr>MTIMECMPL := v\<rparr>"
| "mtimer_wr MTIMER_MTIMECMPH v m = m\<lparr>MTIMECMPH := v\<rparr>"

type_synonym mtimer_mmio = "(MTimerController, mtimer_reg) mmio"

text \<open>
  The two 64-bit quantities the header calls MTIME and MTIMECMP, each the concatenation
  of its high and low register. The counter registers are read as the record shows them:
  the model does not advance the counter between two loads.
\<close>

definition mtime :: "MTimerController \<Rightarrow> u64" where
  "mtime m = push_bit 32 (ucast (MTIMEH m)) OR ucast (MTIMEL m)"

definition mtimecmp :: "MTimerController \<Rightarrow> u64" where
  "mtimecmp m = push_bit 32 (ucast (MTIMECMPH m)) OR ucast (MTIMECMPL m)"

text \<open>
  \<^verbatim>\<open>mtimer->MTIMEL = new_value & 0xFFFFFFFF; mtimer->MTIMEH = new_value >> 32;\<close>
  The assignment to a \<^verbatim>\<open>uint32_t\<close> field keeps the low 32 bits.
\<close>

definition mtimer_set_counter :: "mtimer_mmio \<Rightarrow> u64 \<Rightarrow> mtimer_mmio" where
  "mtimer_set_counter mtimer new_value =
     (let m1 = mmio_store mtimer_wr MTIMER_MTIMEL (ucast (new_value AND 0xFFFFFFFF)) mtimer;
          m2 = mmio_store mtimer_wr MTIMER_MTIMEH (ucast (drop_bit 32 new_value)) m1
      in m2)"

text \<open>
  \<^verbatim>\<open>uint32_t cnt_l = mtimer->MTIMEL; uint64_t cnt_h = mtimer->MTIMEH;
  return (cnt_h << 31) | cnt_l;\<close>
  The shift count is 31 in the source.
\<close>

definition mtimer_get_counter :: "mtimer_mmio \<Rightarrow> u64 \<times> mtimer_mmio" where
  "mtimer_get_counter mtimer =
     (let (cnt_l, m1) = mmio_load mtimer_rd MTIMER_MTIMEL mtimer;
          (h, m2) = mmio_load mtimer_rd MTIMER_MTIMEH m1;
          cnt_h = (ucast h :: u64)
      in (push_bit 31 cnt_h OR ucast cnt_l, m2))"

text \<open>
  \<^verbatim>\<open>mtimer->MTIMECMPL = -1; mtimer->MTIMECMPH = new_value >> 32;
  mtimer->MTIMECMPL = new_value & 0xFFFFFFFF;\<close>
\<close>

definition mtimer_set_compare :: "mtimer_mmio \<Rightarrow> u64 \<Rightarrow> mtimer_mmio" where
  "mtimer_set_compare mtimer new_value =
     (let m1 = mmio_store mtimer_wr MTIMER_MTIMECMPL (- 1) mtimer;
          m2 = mmio_store mtimer_wr MTIMER_MTIMECMPH (ucast (drop_bit 32 new_value)) m1;
          m3 = mmio_store mtimer_wr MTIMER_MTIMECMPL (ucast (new_value AND 0xFFFFFFFF)) m2
      in m3)"

text \<open>States used to evaluate the MTimer functions on concrete inputs.\<close>

definition mtimer_idle :: mtimer_mmio where
  "mtimer_idle =
     \<lparr>regs = \<lparr>CR = 0, MTIMEL = 0, MTIMEH = 0, MTIMECMPL = 0, MTIMECMPH = 0\<rparr>,
      tick = 0, bus = []\<rparr>"

definition mtimer_armed :: mtimer_mmio where
  "mtimer_armed =
     \<lparr>regs = \<lparr>CR = 1, MTIMEL = 0, MTIMEH = 0, MTIMECMPL = 0, MTIMECMPH = 2\<rparr>,
      tick = 0, bus = []\<rparr>"

section \<open>SPI controller\<close>

record SpiController =
  CPOL :: u32
  CPHA :: u32
  CHIP_SELECT :: u32
  CLOCK_CONF :: u32
  WDATA :: u32
  RDATA :: u32
  BUSY :: u32

datatype spi_reg =
  SPI_CPOL | SPI_CPHA | SPI_CHIP_SELECT | SPI_CLOCK_CONF | SPI_WDATA | SPI_RDATA | SPI_BUSY

fun spi_rd :: "spi_reg \<Rightarrow> SpiController \<Rightarrow> u32" where
  "spi_rd SPI_CPOL s = CPOL s"
| "spi_rd SPI_CPHA s = CPHA s"
| "spi_rd SPI_CHIP_SELECT s = CHIP_SELECT s"
| "spi_rd SPI_CLOCK_CONF s = CLOCK_CONF s"
| "spi_rd SPI_WDATA s = WDATA s"
| "spi_rd SPI_RDATA s = RDATA s"
| "spi_rd SPI_BUSY s = BUSY s"

fun spi_wr :: "spi_reg \<Rightarrow> u32 \<Rightarrow> SpiController \<Rightarrow> SpiController" where
  "spi_wr SPI_CPOL v s = s\<lparr>CPOL := v\<rparr>"
| "spi_wr SPI_CPHA v s = s\<lparr>CPHA := v\<rparr>"
| "spi_wr SPI_CHIP_SELECT v s = s\<lparr>CHIP_SELECT := v\<rparr>"
| "spi_wr SPI_CLOCK_CONF v s = s\<lparr>CLOCK_CONF := v\<rparr>"
| "spi_wr SPI_WDATA v s = s\<lparr>WDATA := v\<rparr>"
| "spi_wr SPI_RDATA v s = s\<lparr>RDATA := v\<rparr>"
| "spi_wr SPI_BUSY v s = s\<lparr>BUSY := v\<rparr>"

type_synonym spi_mmio = "(SpiController, spi_reg) mmio"

text \<open>
  \<^verbatim>\<open>enum SpiMode\<close>. An object of the enumerated type can hold any value of its 32-bit
  underlying type, so a mode argument is a word and the enumerators are four of its values.
\<close>

abbreviation (input) SPI_MODE0_CPOL0_CPHA0 :: u32 where "SPI_MODE0_CPOL0_CPHA0 \<equiv> 0"
abbreviation (input) SPI_MODE1_CPOL0_CPHA1 :: u32 where "SPI_MODE1_CPOL0_CPHA1 \<equiv> 1"
abbreviation (input) SPI_MODE2_CPOL1_CPHA0 :: u32 where "SPI_MODE2_CPOL1_CPHA0 \<equiv> 2"
abbreviation (input) SPI_MODE3_CPOL1_CPHA1 :: u32 where "SPI_MODE3_CPOL1_CPHA1 \<equiv> 3"

definition spi_set_cpol :: "spi_mmio \<Rightarrow> u8 \<Rightarrow> spi_mmio" where
  "spi_set_cpol spi cpol =
     (if cpol \<le> 1 then mmio_store spi_wr SPI_CPOL (ucast cpol) spi else spi)"

definition spi_set_cpha :: "spi_mmio \<Rightarrow> u8 \<Rightarrow> spi_mmio" where
  "spi_set_cpha spi cpha =
     (if cpha \<le> 1 then mmio_store spi_wr SPI_CPHA (ucast cpha) spi else spi)"

definition spi_get_cpol :: "spi_mmio \<Rightarrow> u32 \<times> spi_mmio" where
  "spi_get_cpol spi = mmio_load spi_rd SPI_CPOL spi"

definition spi_get_cpha :: "spi_mmio \<Rightarrow> u32 \<times> spi_mmio" where
  "spi_get_cpha spi = mmio_load spi_rd SPI_CPHA spi"

definition spi_set_mode :: "spi_mmio \<Rightarrow> u32 \<Rightarrow> spi_mmio" where
  "spi_set_mode spi mode =
     (if mode = SPI_MODE0_CPOL0_CPHA0 then spi_set_cpha (spi_set_cpol spi 0) 0
      else if mode = SPI_MODE1_CPOL0_CPHA1 then spi_set_cpha (spi_set_cpol spi 0) 1
      else if mode = SPI_MODE2_CPOL1_CPHA0 then spi_set_cpha (spi_set_cpol spi 1) 0
      else if mode = SPI_MODE3_CPOL1_CPHA1 then spi_set_cpha (spi_set_cpol spi 1) 1
      else spi)"

text \<open>
  \<^verbatim>\<open>return ((enum SpiMode)((spi->CPHA << 1) | spi->CPOL));\<close>
  C does not fix the order of the two loads; the model takes them left to right, and the
  value returned does not depend on the order.
\<close>

definition spi_get_mode :: "spi_mmio \<Rightarrow> u32 \<times> spi_mmio" where
  "spi_get_mode spi =
     (let (cpha, s1) = mmio_load spi_rd SPI_CPHA spi;
          (cpol, s2) = mmio_load spi_rd SPI_CPOL s1
      in (push_bit 1 cpha OR cpol, s2))"

definition spi_select :: "spi_mmio \<Rightarrow> u8 \<Rightarrow> spi_mmio" where
  "spi_select spi peripheral_id = mmio_store spi_wr SPI_CHIP_SELECT (ucast peripheral_id) spi"

definition spi_deselect :: "spi_mmio \<Rightarrow> spi_mmio" where
  "spi_deselect spi = mmio_store spi_wr SPI_CHIP_SELECT 0xffffffff spi"

text \<open>The return type is \<^verbatim>\<open>uint8_t\<close>: the low byte of the register.\<close>

definition spi_get_cs :: "spi_mmio \<Rightarrow> u8 \<times> spi_mmio" where
  "spi_get_cs spi = (let (v, s1) = mmio_load spi_rd SPI_CHIP_SELECT spi in (ucast v, s1))"

definition spi_is_ready :: "(nat \<Rightarrow> u32) \<Rightarrow> spi_mmio \<Rightarrow> bool \<times> spi_mmio" where
  "spi_is_ready ins spi = (let (v, s1) = mmio_poll ins spi_wr SPI_BUSY spi in (v = 0, s1))"

text \<open>
  \<^verbatim>\<open>while (!spi_is_ready(spi)) ;\<close>
  The loop has no bound. \<open>None\<close> is the run that never leaves it.
\<close>

partial_function (option) spi_wait_ready :: "(nat \<Rightarrow> u32) \<Rightarrow> spi_mmio \<Rightarrow> spi_mmio option" where
  "spi_wait_ready ins spi =
     (case spi_is_ready ins spi of
        (rdy, s1) \<Rightarrow> if \<not> rdy then spi_wait_ready ins s1 else Some s1)"

declare spi_wait_ready.simps [code]

definition spi_set_clock :: "spi_mmio \<Rightarrow> u8 \<Rightarrow> spi_mmio" where
  "spi_set_clock spi conf = mmio_store spi_wr SPI_CLOCK_CONF (ucast conf) spi"

definition spi_get_clock :: "spi_mmio \<Rightarrow> u8 \<times> spi_mmio" where
  "spi_get_clock spi = (let (v, s1) = mmio_load spi_rd SPI_CLOCK_CONF spi in (ucast v, s1))"

definition spi_write :: "(nat \<Rightarrow> u32) \<Rightarrow> spi_mmio \<Rightarrow> u8 \<Rightarrow> spi_mmio option" where
  "spi_write ins spi wdata =
     spi_wait_ready ins (mmio_store spi_wr SPI_WDATA (ucast wdata) spi)"

definition spi_transfer :: "(nat \<Rightarrow> u32) \<Rightarrow> spi_mmio \<Rightarrow> u8 \<Rightarrow> (u8 \<times> spi_mmio) option" where
  "spi_transfer ins spi wdata =
     (case spi_wait_ready ins (mmio_store spi_wr SPI_WDATA (ucast wdata) spi) of
        None \<Rightarrow> None
      | Some s1 \<Rightarrow> (let (v, s2) = mmio_poll ins spi_wr SPI_RDATA s1 in Some (ucast v, s2)))"

text \<open>
  The invariant of the data model, and a controller after reset with an input sequence
  that shows BUSY set for two polls and clear from then on.
\<close>

definition spi_inv :: "SpiController \<Rightarrow> bool" where
  "spi_inv s = ((CPOL s = 0 \<or> CPOL s = 1) \<and> (CPHA s = 0 \<or> CPHA s = 1))"

definition spi_reset :: spi_mmio where
  "spi_reset =
     \<lparr>regs = \<lparr>CPOL = 0, CPHA = 0, CHIP_SELECT = 0xffffffff, CLOCK_CONF = 0, WDATA = 0,
              RDATA = 0, BUSY = 0\<rparr>,
      tick = 0, bus = []\<rparr>"


section \<open>UART controller\<close>

text \<open>
  The repository holds two versions of the UART header. This one has the RXSTATUS register
  and names its readiness test \<^verbatim>\<open>uart_ready_to_send\<close>.
\<close>

record UartController =
  WDATA :: u32
  RDATA :: u32
  READY :: u32
  RXSTATUS :: u32

datatype uart_reg = UART_WDATA | UART_RDATA | UART_READY | UART_RXSTATUS

fun uart_wr :: "uart_reg \<Rightarrow> u32 \<Rightarrow> UartController \<Rightarrow> UartController" where
  "uart_wr UART_WDATA v u = u\<lparr>UartController.WDATA := v\<rparr>"
| "uart_wr UART_RDATA v u = u\<lparr>UartController.RDATA := v\<rparr>"
| "uart_wr UART_READY v u = u\<lparr>READY := v\<rparr>"
| "uart_wr UART_RXSTATUS v u = u\<lparr>RXSTATUS := v\<rparr>"

text \<open>Byte offset of each register from the base address of the controller.\<close>

fun uart_offset :: "uart_reg \<Rightarrow> nat" where
  "uart_offset UART_WDATA = 0x00"
| "uart_offset UART_RDATA = 0x04"
| "uart_offset UART_READY = 0x08"
| "uart_offset UART_RXSTATUS = 0x0c"

type_synonym uart_mmio = "(UartController, uart_reg) mmio"

definition uart_ready_to_send :: "(nat \<Rightarrow> u32) \<Rightarrow> uart_mmio \<Rightarrow> bool \<times> uart_mmio" where
  "uart_ready_to_send ins uart =
     (let (v, u1) = mmio_poll ins uart_wr UART_READY uart in (v = 1, u1))"

definition uart_read :: "(nat \<Rightarrow> u32) \<Rightarrow> uart_mmio \<Rightarrow> u8 \<times> uart_mmio" where
  "uart_read ins uart = (let (v, u1) = mmio_poll ins uart_wr UART_RDATA uart in (ucast v, u1))"

text \<open>
  \<^verbatim>\<open>while (!uart_ready_to_send(uart)) ; uart->WDATA = data;\<close>
  \<open>None\<close> is the run that never leaves the loop.
\<close>

partial_function (option) uart_write :: "(nat \<Rightarrow> u32) \<Rightarrow> uart_mmio \<Rightarrow> u8 \<Rightarrow> uart_mmio option" where
  "uart_write ins uart data =
     (case uart_ready_to_send ins uart of
        (rdy, u1) \<Rightarrow>
          if \<not> rdy then uart_write ins u1 data
          else Some (mmio_store uart_wr UART_WDATA (ucast data) u1))"

declare uart_write.simps [code]

text \<open>
  \<^verbatim>\<open>while (*(str) != '\0') { uart_write(uart, *(str)); str++; }\<close>
  The argument is the array of bytes that \<^verbatim>\<open>str\<close> points into, from \<^verbatim>\<open>str\<close> to its
  end. A scan that leaves the array without meeting a null byte is undefined in C; the
  model reports it as \<open>OutOfBounds\<close>.
\<close>

datatype error = OutOfBounds

fun uart_write_string ::
  "(nat \<Rightarrow> u32) \<Rightarrow> uart_mmio \<Rightarrow> u8 list \<Rightarrow> (error + uart_mmio) option" where
  "uart_write_string ins uart [] = Some (Inl OutOfBounds)"
| "uart_write_string ins uart (c # str) =
     (if c \<noteq> 0
      then (case uart_write ins uart c of
              None \<Rightarrow> None
            | Some u1 \<Rightarrow> uart_write_string ins u1 str)
      else Some (Inr uart))"

definition uart_data_received :: "(nat \<Rightarrow> u32) \<Rightarrow> uart_mmio \<Rightarrow> bool \<times> uart_mmio" where
  "uart_data_received ins uart =
     (let (v, u1) = mmio_poll ins uart_wr UART_RXSTATUS uart in (v = 1, u1))"

subsection \<open>The header without RXSTATUS\<close>

text \<open>
  The other version of the header has three registers and names its readiness test
  \<^verbatim>\<open>uart_ready\<close>. Its struct and its functions carry the names of the first version in
  C; here they take the suffix \<open>_basic\<close>.
\<close>

record UartController_basic =
  WDATA :: u32
  RDATA :: u32
  READY :: u32

datatype uart_basic_reg = UARTB_WDATA | UARTB_RDATA | UARTB_READY

fun uart_basic_wr ::
  "uart_basic_reg \<Rightarrow> u32 \<Rightarrow> UartController_basic \<Rightarrow> UartController_basic" where
  "uart_basic_wr UARTB_WDATA v u = u\<lparr>UartController_basic.WDATA := v\<rparr>"
| "uart_basic_wr UARTB_RDATA v u = u\<lparr>UartController_basic.RDATA := v\<rparr>"
| "uart_basic_wr UARTB_READY v u = u\<lparr>UartController_basic.READY := v\<rparr>"

fun uart_basic_offset :: "uart_basic_reg \<Rightarrow> nat" where
  "uart_basic_offset UARTB_WDATA = 0x00"
| "uart_basic_offset UARTB_RDATA = 0x04"
| "uart_basic_offset UARTB_READY = 0x08"

type_synonym uart_basic_mmio = "(UartController_basic, uart_basic_reg) mmio"

definition uart_ready :: "(nat \<Rightarrow> u32) \<Rightarrow> uart_basic_mmio \<Rightarrow> bool \<times> uart_basic_mmio" where
  "uart_ready ins uart =
     (let (v, u1) = mmio_poll ins uart_basic_wr UARTB_READY uart in (v = 1, u1))"

definition uart_read_basic :: "(nat \<Rightarrow> u32) \<Rightarrow> uart_basic_mmio \<Rightarrow> u8 \<times> uart_basic_mmio" where
  "uart_read_basic ins uart =
     (let (v, u1) = mmio_poll ins uart_basic_wr UARTB_RDATA uart in (ucast v, u1))"

partial_function (option) uart_write_basic ::
  "(nat \<Rightarrow> u32) \<Rightarrow> uart_basic_mmio \<Rightarrow> u8 \<Rightarrow> uart_basic_mmio option" where
  "uart_write_basic ins uart data =
     (case uart_ready ins uart of
        (rdy, u1) \<Rightarrow>
          if \<not> rdy then uart_write_basic ins u1 data
          else Some (mmio_store uart_basic_wr UARTB_WDATA (ucast data) u1))"

declare uart_write_basic.simps [code]

fun uart_write_string_basic ::
  "(nat \<Rightarrow> u32) \<Rightarrow> uart_basic_mmio \<Rightarrow> u8 list \<Rightarrow> (error + uart_basic_mmio) option" where
  "uart_write_string_basic ins uart [] = Some (Inl OutOfBounds)"
| "uart_write_string_basic ins uart (c # str) =
     (if c \<noteq> 0
      then (case uart_write_basic ins uart c of
              None \<Rightarrow> None
            | Some u1 \<Rightarrow> uart_write_string_basic ins u1 str)
      else Some (Inr uart))"

text \<open>
  Controllers after reset, and an input sequence on which READY reads 1 at every second
  poll.
\<close>

definition uart_reset :: uart_mmio where
  "uart_reset =
     \<lparr>regs = \<lparr>UartController.WDATA = 0, UartController.RDATA = 0, UartController.READY = 0,
              RXSTATUS = 0\<rparr>,
      tick = 0, bus = []\<rparr>"

definition uart_basic_reset :: uart_basic_mmio where
  "uart_basic_reset =
     \<lparr>regs = \<lparr>WDATA = 0, RDATA = 0, READY = 0\<rparr>, tick = 0, bus = []\<rparr>"

definition ready_alternating :: "nat \<Rightarrow> u32" where
  "ready_alternating k = (if even k then 0 else 1)"

section \<open>GPIO controller\<close>

record GpioController =
  IN :: u32
  OE :: u32
  OUT :: u32
  CLR :: u32
  SET :: u32

datatype gpio_reg = GPIO_IN | GPIO_OE | GPIO_OUT | GPIO_CLR | GPIO_SET

text \<open>
  Modelled from the spec: the reaction of the GPIO device to a word stored to SET or CLR.
  It is hardware, and the headers only issue the store. The specification has set and
  clear operate through SET and CLR on the output bits, a store of a mask changing exactly
  the output bits flagged in the mask and leaving all others at their prior value; the
  header says of \<^verbatim>\<open>gpio_set_group\<close> and \<^verbatim>\<open>gpio_clear_group\<close> that the flagged pins go
  to 1 or to 0 and "all remaining pins keep their current values". So a store to SET sets
  the flagged bits of OUT and a store to CLR clears them, and neither register keeps a
  word of its own. OE and OUT keep the word stored to them; IN shows the word last loaded
  from it.
\<close>

fun gpio_wr :: "gpio_reg \<Rightarrow> u32 \<Rightarrow> GpioController \<Rightarrow> GpioController" where
  "gpio_wr GPIO_IN v g = g\<lparr>IN := v\<rparr>"
| "gpio_wr GPIO_OE v g = g\<lparr>OE := v\<rparr>"
| "gpio_wr GPIO_OUT v g = g\<lparr>OUT := v\<rparr>"
| "gpio_wr GPIO_CLR v g = g\<lparr>OUT := OUT g AND NOT v\<rparr>"
| "gpio_wr GPIO_SET v g = g\<lparr>OUT := OUT g OR v\<rparr>"

type_synonym gpio_mmio = "(GpioController, gpio_reg) mmio"

text \<open>
  \<^verbatim>\<open>enum GpioLogicValue\<close>, as a word of the underlying type with its two enumerators.
\<close>

abbreviation (input) LOW :: u32 where "LOW \<equiv> 0"
abbreviation (input) HIGH :: u32 where "HIGH \<equiv> 1"

text \<open>
  \<^verbatim>\<open>0x1U << pin_id\<close>: a shift of a 32-bit operand by 32 or more is undefined in C and
  has no result here.
\<close>

definition shl_u32 :: "u32 \<Rightarrow> u32 \<Rightarrow> u32 option" where
  "shl_u32 x n = (if unat n < 32 then Some (push_bit (unat n) x) else None)"

definition gpio_write :: "gpio_mmio \<Rightarrow> u32 \<Rightarrow> u32 \<Rightarrow> gpio_mmio option" where
  "gpio_write gpio pin_id val =
     (if val = LOW
      then map_option (\<lambda>m. mmio_store gpio_wr GPIO_CLR m gpio) (shl_u32 0x1 pin_id)
      else if val = HIGH
      then map_option (\<lambda>m. mmio_store gpio_wr GPIO_SET m gpio) (shl_u32 0x1 pin_id)
      else Some gpio)"

text \<open>\<^verbatim>\<open>gpio->SET = 0x1U << pin_id;\<close> and \<^verbatim>\<open>gpio->CLR = 0x1U << pin_id;\<close>\<close>

definition gpio_set :: "gpio_mmio \<Rightarrow> u32 \<Rightarrow> gpio_mmio option" where
  "gpio_set gpio pin_id =
     map_option (\<lambda>m. mmio_store gpio_wr GPIO_SET m gpio) (shl_u32 0x1 pin_id)"

definition gpio_clear :: "gpio_mmio \<Rightarrow> u32 \<Rightarrow> gpio_mmio option" where
  "gpio_clear gpio pin_id =
     map_option (\<lambda>m. mmio_store gpio_wr GPIO_CLR m gpio) (shl_u32 0x1 pin_id)"

text \<open>
  The group functions are single assignments: \<^verbatim>\<open>gpio->OUT = value_mask;\<close>,
  \<^verbatim>\<open>gpio->SET = bit_mask;\<close> and \<^verbatim>\<open>gpio->CLR = bit_mask;\<close>.
\<close>

definition gpio_write_group :: "gpio_mmio \<Rightarrow> u32 \<Rightarrow> gpio_mmio" where
  "gpio_write_group gpio value_mask = mmio_store gpio_wr GPIO_OUT value_mask gpio"


definition gpio_clear_group :: "gpio_mmio \<Rightarrow> u32 \<Rightarrow> gpio_mmio" where
  "gpio_clear_group gpio bit_mask = mmio_store gpio_wr GPIO_CLR bit_mask gpio"

definition gpio_reset :: gpio_mmio where
  "gpio_reset = \<lparr>regs = \<lparr>IN = 0, OE = 0, OUT = 0, CLR = 0, SET = 0\<rparr>, tick = 0, bus = []\<rparr>"

section \<open>Facts about the bus model\<close>

lemma issued_self [simp]: "issued w w = []"
  by (simp add: issued_def)

lemma issued_store [simp]: "issued w (mmio_store wr r v w) = [Store r v]"
  by (simp add: issued_def mmio_store_def)

lemma issued_append: "bus w' = bus w @ tr \<Longrightarrow> issued w w' = tr"
  by (simp add: issued_def)

lemma polls_0 [simp]: "polls r ins k 0 = []"
  by (simp add: polls_def)

lemma polls_Suc: "polls r ins k (Suc n) = Load r (ins k) # polls r ins (Suc k) n"
  by (simp add: polls_def upt_conv_Cons del: upt_Suc)

lemma polls_snoc: "polls r ins k (Suc n) = polls r ins k n @ [Load r (ins (k + n))]"
  by (simp add: polls_def)

lemma length_polls [simp]: "length (polls r ins k n) = n"
  by (simp add: polls_def)

lemma first_occurrence:
  assumes "\<exists>n. (ins :: nat \<Rightarrow> u32) (k + n) = v"
  shows "\<exists>n. ins (k + n) = v \<and> (\<forall>j<n. ins (k + j) \<noteq> v)"
proof -
  from assms have "ins (k + (LEAST n. ins (k + n) = v)) = v"
    by (rule LeastI_ex)
  moreover have "\<forall>j<(LEAST n. ins (k + n) = v). ins (k + j) \<noteq> v"
    using not_less_Least by blast
  ultimately show ?thesis by blast
qed

lemma u8_le_1: "(v :: u8) \<le> 1 \<Longrightarrow> v = 0 \<or> v = 1"
  by (metis word_le_sub1 word_coorder.extremum order_antisym_conv)

lemma u8_via_u32: "(ucast (ucast (x :: u8) :: u32) :: u8) = x"
  by (rule bit_word_eqI) (auto simp: bit_simps)

lemma u32_bound: "unat (x :: u32) < 4294967296"
  using unsigned_less [of x, where 'a = nat] by simp

lemma minus_one_u32: "(- 1 :: u32) = 0xFFFFFFFF"
  by simp

lemma unat_minus_one_u32: "unat (- 1 :: u32) = 4294967295"
  by (simp add: minus_one_u32)

section \<open>MTimer: the compare update and the counter read\<close>

lemma unat_low_word: "unat (ucast (l :: u32) :: u64) = unat l"
  using u32_bound [of l] by (simp add: unsigned_ucast_eq take_bit_nat_eq_self_iff)

lemma unat_high_word: "unat (push_bit 32 (ucast (h :: u32)) :: u64) = unat h * 4294967296"
proof -
  have "unat (push_bit 32 (ucast h) :: u64) = take_bit 64 (push_bit 32 (unat h))"
    by (simp only: unsigned_push_bit_eq unat_low_word) simp
  also have "\<dots> = unat h * 4294967296"
    using u32_bound [of h] by (simp add: take_bit_nat_eq_self_iff push_bit_eq_mult)
  finally show ?thesis .
qed

lemma halves_disjoint:
  "push_bit 32 (ucast (h :: u32)) OR ucast (l :: u32) = (push_bit 32 (ucast h) + ucast l :: u64)"
  by (rule disjunctive_add [symmetric]) (auto simp: bit_simps dest: bit_imp_le_length)

lemma unat_halves:
  "unat (push_bit 32 (ucast (h :: u32)) OR ucast (l :: u32) :: u64) = unat h * 4294967296 + unat l"
proof -
  have "unat (push_bit 32 (ucast h) :: u64) + unat (ucast l :: u64) < 2 ^ LENGTH(64)"
    using u32_bound [of h] u32_bound [of l] by (simp add: unat_high_word unat_low_word)
  then have "unat (push_bit 32 (ucast h) + ucast l :: u64)
      = unat (push_bit 32 (ucast h) :: u64) + unat (ucast l :: u64)"
    by (simp only: unat_add_lem)
  then show ?thesis by (simp add: halves_disjoint unat_high_word unat_low_word)
qed

lemma unat_mtimecmp:
  "unat (mtimecmp m) = unat (MTIMECMPH m) * 4294967296 + unat (MTIMECMPL m)"
  by (simp add: mtimecmp_def unat_halves)

lemma low_mask_u64: "(0xFFFFFFFF :: u64) = mask 32"
  by (simp add: mask_eq_exp_minus_1)

lemma halves_rejoin:
  "push_bit 32 (ucast (ucast (drop_bit 32 n) :: u32))
     OR ucast (ucast (n AND 0xFFFFFFFF) :: u32) = (n :: u64)"
  unfolding low_mask_u64 by (rule bit_word_eqI) (auto simp: bit_simps)

lemma issued_set_compare:
  "issued w (mtimer_set_compare w n) =
     [Store MTIMER_MTIMECMPL (- 1), Store MTIMER_MTIMECMPH (ucast (drop_bit 32 n)),
      Store MTIMER_MTIMECMPL (ucast (n AND 0xFFFFFFFF))]"
  by (simp add: issued_def mtimer_set_compare_def mmio_store_def)

lemma regs_set_compare:
  "regs (mtimer_set_compare w n) =
     (regs w)\<lparr>MTIMECMPL := ucast (n AND 0xFFFFFFFF), MTIMECMPH := ucast (drop_bit 32 n)\<rparr>"
  by (simp add: mtimer_set_compare_def mmio_store_def)

lemma mtimecmp_saturated: "mtimecmp m \<le> mtimecmp (m\<lparr>MTIMECMPL := - 1\<rparr>)"
  using u32_bound [of "MTIMECMPL m"]
  by (simp add: word_le_nat_alt unat_mtimecmp unat_minus_one_u32)

lemma mtimecmp_high_changed:
  "(mtimecmp m \<le> mtimecmp (m\<lparr>MTIMECMPL := - 1, MTIMECMPH := h\<rparr>)) = (MTIMECMPH m \<le> h)"
  using u32_bound [of "MTIMECMPL m"]
  by (auto simp add: word_le_nat_alt unat_mtimecmp unat_minus_one_u32)

lemma mtimecmp_final:
  "mtimecmp (m\<lparr>MTIMECMPL := ucast (n AND 0xFFFFFFFF), MTIMECMPH := ucast (drop_bit 32 n)\<rparr>) = n"
  by (simp add: mtimecmp_def halves_rejoin)

lemma mtimecmp_above_new:
  "n \<le> mtimecmp (m\<lparr>MTIMECMPL := - 1, MTIMECMPH := ucast (drop_bit 32 n)\<rparr>)"
proof -
  let ?m = "m\<lparr>MTIMECMPL := ucast (n AND 0xFFFFFFFF), MTIMECMPH := ucast (drop_bit 32 n)\<rparr>"
  have "mtimecmp ?m \<le> mtimecmp (?m\<lparr>MTIMECMPL := - 1\<rparr>)"
    by (rule mtimecmp_saturated)
  moreover have "mtimecmp ?m = n"
    by (rule mtimecmp_final)
  moreover have "?m\<lparr>MTIMECMPL := - 1\<rparr> = m\<lparr>MTIMECMPL := - 1, MTIMECMPH := ucast (drop_bit 32 n)\<rparr>"
    by simp
  ultimately show ?thesis by simp
qed

text \<open>
  Claim C1, as amended. \<^verbatim>\<open>mtimer_set_compare(mtimer, N)\<close> performs three stores. With
  \<open>C\<close> the composite compare value before the call: after the first store the composite
  value is at least \<open>C\<close>; after the second store it is at least \<open>N\<close>, and it is at least
  \<open>C\<close> exactly when the old high word is not above the new high word, so in particular
  whenever \<open>C \<le> N\<close>; after the third store it is \<open>N\<close>, and that is the state the call
  returns.
\<close>

theorem mtimer_set_compare_observed:
  "issued w (mtimer_set_compare w N) =
     [Store MTIMER_MTIMECMPL 0xFFFFFFFF, Store MTIMER_MTIMECMPH (ucast (drop_bit 32 N)),
      Store MTIMER_MTIMECMPL (ucast (N AND 0xFFFFFFFF))] \<and>
   (let obs = observe mtimer_wr (regs w) (issued w (mtimer_set_compare w N));
        C = mtimecmp (regs w)
    in length obs = 3 \<and>
       C \<le> mtimecmp (obs ! 0) \<and>
       N \<le> mtimecmp (obs ! 1) \<and>
       (C \<le> mtimecmp (obs ! 1)) = (MTIMECMPH (regs w) \<le> ucast (drop_bit 32 N)) \<and>
       (C \<le> N \<longrightarrow> C \<le> mtimecmp (obs ! 1)) \<and>
       mtimecmp (obs ! 2) = N \<and>
       obs ! 2 = regs (mtimer_set_compare w N))"
proof -
  let ?m1 = "(regs w)\<lparr>MTIMECMPL := - 1\<rparr>"
  let ?m2 = "(regs w)\<lparr>MTIMECMPL := - 1, MTIMECMPH := ucast (drop_bit 32 N)\<rparr>"
  let ?m3 = "(regs w)\<lparr>MTIMECMPL := ucast (N AND 0xFFFFFFFF),
                       MTIMECMPH := ucast (drop_bit 32 N)\<rparr>"
  have obs: "observe mtimer_wr (regs w) (issued w (mtimer_set_compare w N)) = [?m1, ?m2, ?m3]"
    by (simp add: issued_set_compare)
  have first: "mtimecmp (regs w) \<le> mtimecmp ?m1"
    by (rule mtimecmp_saturated)
  have second_new: "N \<le> mtimecmp ?m2"
    by (rule mtimecmp_above_new)
  have second_old:
    "(mtimecmp (regs w) \<le> mtimecmp ?m2) = (MTIMECMPH (regs w) \<le> ucast (drop_bit 32 N))"
    by (rule mtimecmp_high_changed)
  have raised: "mtimecmp (regs w) \<le> N \<longrightarrow> mtimecmp (regs w) \<le> mtimecmp ?m2"
    using second_new by auto
  have third: "mtimecmp ?m3 = N"
    by (rule mtimecmp_final)
  show ?thesis
    unfolding obs Let_def using first second_new second_old raised third
    by (simp add: regs_set_compare issued_set_compare)
qed

text \<open>
  The amended statement used on a raise of the compare value from \<open>0x200000000\<close> to
  \<open>0x300000005\<close>.
\<close>

theorem mtimer_set_compare_observed_witness:
  "mtimecmp (regs mtimer_armed) \<le> 0x300000005 \<and>
   mtimecmp (regs mtimer_armed)
     \<le> mtimecmp (observe mtimer_wr (regs mtimer_armed)
          (issued mtimer_armed (mtimer_set_compare mtimer_armed 0x300000005)) ! 1)"
  using mtimer_set_compare_observed [of mtimer_armed "0x300000005"]
  by (simp add: Let_def mtimer_armed_def mtimecmp_def minus_one_u32)

text \<open>
  Claim C1 as stated fails when the compare value is lowered across a high-word boundary:
  from \<open>0x200000000\<close> to \<open>0x100000000\<close> the composite value after the second store is
  \<open>0x1FFFFFFFF\<close>, below the value before the call.
\<close>

theorem mtimer_set_compare_dips_below:
  "mtimecmp (regs mtimer_armed) = 0x200000000 \<and>
   mtimecmp (observe mtimer_wr (regs mtimer_armed)
      (issued mtimer_armed (mtimer_set_compare mtimer_armed 0x100000000)) ! 1) = 0x1FFFFFFFF \<and>
   mtimecmp (observe mtimer_wr (regs mtimer_armed)
      (issued mtimer_armed (mtimer_set_compare mtimer_armed 0x100000000)) ! 1)
     < mtimecmp (regs mtimer_armed)"
  by (simp add: issued_set_compare mtimer_armed_def mtimecmp_def minus_one_u32)

text \<open>
  Claim C2 fails on the code. \<^verbatim>\<open>mtimer_get_counter\<close> shifts the high word by 31, not by
  32: after \<^verbatim>\<open>mtimer_set_counter(mtimer, 0x100000000)\<close> the registers hold MTIMEH = 1 and
  MTIMEL = 0, the logical counter is \<open>0x100000000\<close>, and the function returns
  \<open>0x80000000\<close>.
\<close>

theorem mtimer_get_counter_shifts_by_31:
  "mtime (regs (mtimer_set_counter mtimer_idle 0x100000000)) = 0x100000000 \<and>
   fst (mtimer_get_counter (mtimer_set_counter mtimer_idle 0x100000000)) = 0x80000000"
  by (simp add: mtimer_get_counter_def mtimer_set_counter_def mmio_store_def mmio_load_def
      mtimer_idle_def mtime_def Let_def)

section \<open>SPI: configuration registers\<close>

lemmas spi_config_defs =
  spi_set_cpol_def spi_set_cpha_def spi_get_cpol_def spi_get_cpha_def spi_set_mode_def
  spi_get_mode_def spi_select_def spi_deselect_def spi_get_cs_def spi_set_clock_def
  spi_get_clock_def mmio_store_def mmio_load_def

lemma spi_get_mode_value: "fst (spi_get_mode spi) = push_bit 1 (CPHA (regs spi)) OR CPOL (regs spi)"
  by (simp add: spi_config_defs)

lemma spi_set_mode_regs:
  "regs (spi_set_mode spi SPI_MODE0_CPOL0_CPHA0) = (regs spi)\<lparr>CPOL := 0, CPHA := 0\<rparr>"
  "regs (spi_set_mode spi SPI_MODE1_CPOL0_CPHA1) = (regs spi)\<lparr>CPOL := 0, CPHA := 1\<rparr>"
  "regs (spi_set_mode spi SPI_MODE2_CPOL1_CPHA0) = (regs spi)\<lparr>CPOL := 1, CPHA := 0\<rparr>"
  "regs (spi_set_mode spi SPI_MODE3_CPOL1_CPHA1) = (regs spi)\<lparr>CPOL := 1, CPHA := 1\<rparr>"
  by (simp_all add: spi_config_defs)

lemma spi_mode_round_trip_0_3:
  "fst (spi_get_mode (spi_set_mode spi SPI_MODE0_CPOL0_CPHA0)) = SPI_MODE0_CPOL0_CPHA0"
  "fst (spi_get_mode (spi_set_mode spi SPI_MODE3_CPOL1_CPHA1)) = SPI_MODE3_CPOL1_CPHA1"
  by (simp_all add: spi_get_mode_value spi_set_mode_regs)

text \<open>
  Claim C3 fails on the code for the two mixed modes. \<^verbatim>\<open>spi_set_mode\<close> follows the
  enumerators (mode 1 is CPOL = 0 and CPHA = 1, mode 2 is CPOL = 1 and CPHA = 0), while
  \<^verbatim>\<open>spi_get_mode\<close> puts CPHA in the high bit: after setting mode 1 it returns 2, and
  after setting mode 2 it returns 1, in every state of the controller.
\<close>

theorem spi_get_mode_swaps_mixed_modes:
  "fst (spi_get_mode (spi_set_mode spi SPI_MODE1_CPOL0_CPHA1)) = SPI_MODE2_CPOL1_CPHA0 \<and>
   fst (spi_get_mode (spi_set_mode spi SPI_MODE2_CPOL1_CPHA0)) = SPI_MODE1_CPOL0_CPHA1"
  by (simp add: spi_get_mode_value spi_set_mode_regs)

text \<open>
  Claim C9. After \<^verbatim>\<open>spi_deselect\<close>, \<^verbatim>\<open>spi_get_cs\<close> returns \<open>0xff\<close>; after
  \<^verbatim>\<open>spi_select(spi, id)\<close> it returns \<open>id\<close>, for every byte \<open>id\<close> and every state.
\<close>

theorem spi_get_cs_after_select:
  "fst (spi_get_cs (spi_deselect spi)) = 0xff \<and>
   fst (spi_get_cs (spi_select spi peripheral_id)) = peripheral_id"
  by (simp add: spi_config_defs u8_via_u32)

section \<open>SPI: the busy-polled transfer\<close>

lemmas spi_poll_defs = spi_is_ready_def mmio_poll_def Let_def

lemma spi_wait_ready_returns:
  "ins (tick spi + n) = 0 \<Longrightarrow> \<forall>j<n. ins (tick spi + j) \<noteq> 0 \<Longrightarrow>
   spi_wait_ready ins spi =
     Some (spi\<lparr>regs := (regs spi)\<lparr>BUSY := 0\<rparr>, tick := tick spi + Suc n,
               bus := bus spi @ polls SPI_BUSY ins (tick spi) (Suc n)\<rparr>)"
proof (induction n arbitrary: spi)
  case 0
  then show ?case
    by (subst spi_wait_ready.simps) (simp add: spi_poll_defs polls_Suc)
next
  case (Suc n)
  let ?s1 = "snd (spi_is_ready ins spi)"
  have busy: "ins (tick spi) \<noteq> 0"
    using Suc.prems(2) by (metis add.right_neutral zero_less_Suc)
  have t1: "tick ?s1 = Suc (tick spi)"
    by (simp add: spi_poll_defs)
  have "ins (tick ?s1 + n) = 0" "\<forall>j<n. ins (tick ?s1 + j) \<noteq> 0"
    using Suc.prems by (simp_all add: t1) (metis Suc_less_eq add_Suc_right)
  then have "spi_wait_ready ins ?s1 =
      Some (?s1\<lparr>regs := (regs ?s1)\<lparr>BUSY := 0\<rparr>, tick := tick ?s1 + Suc n,
                bus := bus ?s1 @ polls SPI_BUSY ins (tick ?s1) (Suc n)\<rparr>)"
    by (rule Suc.IH)
  moreover have "spi_wait_ready ins spi = spi_wait_ready ins ?s1"
    using busy by (subst spi_wait_ready.simps) (simp add: spi_poll_defs)
  ultimately show ?case
    by (simp add: spi_poll_defs polls_Suc [of _ _ "tick spi"])
qed

lemma spi_wait_ready_polled_zero:
  assumes "spi_wait_ready ins spi = Some s'"
  shows "\<exists>n. ins (tick spi + n) = 0"
proof (rule spi_wait_ready.raw_induct
    [where P = "\<lambda>ins spi s'. \<exists>n. ins (tick spi + n) = 0", OF _ assms])
  fix wait :: "(nat \<Rightarrow> u32) \<Rightarrow> spi_mmio \<Rightarrow> spi_mmio option" and ins spi s'
  assume IH: "\<And>ins spi s'. wait ins spi = Some s' \<Longrightarrow> \<exists>n. ins (tick spi + n) = 0"
    and step: "(case spi_is_ready ins spi of
                 (rdy, s1) \<Rightarrow> if \<not> rdy then wait ins s1 else Some s1) = Some s'"
  show "\<exists>n. ins (tick spi + n) = 0"
  proof (cases "ins (tick spi) = 0")
    case True
    then show ?thesis by (metis add.right_neutral)
  next
    case False
    then have "wait ins (snd (spi_is_ready ins spi)) = Some s'"
      using step by (simp add: spi_poll_defs)
    then have "\<exists>n. ins (tick (snd (spi_is_ready ins spi)) + n) = 0"
      by (rule IH)
    then obtain n where "ins (Suc (tick spi) + n) = 0"
      by (auto simp: spi_poll_defs)
    then show ?thesis by (metis add_Suc_shift)
  qed
qed

lemma spi_wait_ready_cases:
  "(spi_wait_ready ins spi = None \<and> (\<forall>n. ins (tick spi + n) \<noteq> 0)) \<or>
   (\<exists>n. ins (tick spi + n) = 0 \<and> (\<forall>j<n. ins (tick spi + j) \<noteq> 0) \<and>
        spi_wait_ready ins spi =
          Some (spi\<lparr>regs := (regs spi)\<lparr>BUSY := 0\<rparr>, tick := tick spi + Suc n,
                    bus := bus spi @ polls SPI_BUSY ins (tick spi) (Suc n)\<rparr>))"
proof (cases "\<exists>n. ins (tick spi + n) = 0")
  case True
  then obtain n where "ins (tick spi + n) = 0" "\<forall>j<n. ins (tick spi + j) \<noteq> 0"
    using first_occurrence [of ins "tick spi" 0] by blast
  then show ?thesis using spi_wait_ready_returns [of ins spi n] by blast
next
  case False
  then have "spi_wait_ready ins spi = None"
    using spi_wait_ready_polled_zero [of ins spi] by (cases "spi_wait_ready ins spi") auto
  then show ?thesis using False by simp
qed

text \<open>The two blocking calls, by cases on whether BUSY ever reads 0.\<close>

lemma spi_write_cases:
  "(spi_write ins spi b = None \<and> (\<forall>n. ins (tick spi + n) \<noteq> 0)) \<or>
   (\<exists>n. ins (tick spi + n) = 0 \<and> (\<forall>j<n. ins (tick spi + j) \<noteq> 0) \<and>
        spi_write ins spi b =
          Some (spi\<lparr>regs := (regs spi)\<lparr>SpiController.WDATA := ucast b, BUSY := 0\<rparr>,
                    tick := tick spi + Suc n,
                    bus := bus spi @ Store SPI_WDATA (ucast b)
                             # polls SPI_BUSY ins (tick spi) (Suc n)\<rparr>))"
  using spi_wait_ready_cases [of ins "mmio_store spi_wr SPI_WDATA (ucast b) spi"]
  by (simp add: spi_write_def mmio_store_def)

lemma spi_transfer_cases:
  "(spi_transfer ins spi b = None \<and> spi_write ins spi b = None) \<or>
   (\<exists>s1. spi_write ins spi b = Some s1 \<and>
         spi_transfer ins spi b =
           Some (ucast (ins (tick s1)),
                 s1\<lparr>regs := (regs s1)\<lparr>SpiController.RDATA := ins (tick s1)\<rparr>,
                    tick := Suc (tick s1),
                    bus := bus s1 @ [Load SPI_RDATA (ins (tick s1))]\<rparr>))"
  by (cases "spi_wait_ready ins (mmio_store spi_wr SPI_WDATA (ucast b) spi)")
    (simp_all add: spi_write_def spi_transfer_def mmio_poll_def Let_def)



section \<open>SPI: the invariant on CPOL and CPHA\<close>

lemma spi_inv_config:
  assumes "spi_inv (regs spi)"
  shows "spi_inv (regs (spi_set_cpol spi v))" and "spi_inv (regs (spi_set_cpha spi v))"
    and "spi_inv (regs (spi_set_mode spi mode))"
    and "spi_inv (regs (spi_select spi peripheral_id))" and "spi_inv (regs (spi_deselect spi))"
    and "spi_inv (regs (spi_set_clock spi conf))"
  using assms u8_le_1 [of v] by (auto simp: spi_inv_def spi_config_defs)

lemma spi_inv_getters:
  "regs (snd (spi_get_cpol spi)) = regs spi" "regs (snd (spi_get_cpha spi)) = regs spi"
  "regs (snd (spi_get_mode spi)) = regs spi" "regs (snd (spi_get_cs spi)) = regs spi"
  "regs (snd (spi_get_clock spi)) = regs spi"
  by (simp_all add: spi_config_defs)

lemma spi_inv_is_ready: "spi_inv (regs spi) \<Longrightarrow> spi_inv (regs (snd (spi_is_ready ins spi)))"
  by (simp add: spi_inv_def spi_poll_defs)

lemma spi_inv_write: "spi_inv (regs spi) \<Longrightarrow> spi_write ins spi b = Some s' \<Longrightarrow> spi_inv (regs s')"
  using spi_write_cases [of ins spi b] by (auto simp: spi_inv_def)

lemma spi_inv_transfer:
  "spi_inv (regs spi) \<Longrightarrow> spi_transfer ins spi b = Some (r, s'') \<Longrightarrow> spi_inv (regs s'')"
  using spi_transfer_cases [of ins spi b] spi_inv_write [of spi ins b]
  by (auto simp: spi_inv_def)

lemma spi_set_mode_unknown: "3 < mode \<Longrightarrow> spi_set_mode spi mode = spi"
  by (auto simp: spi_set_mode_def)

text \<open>
  Claim C8. In a state where CPOL and CPHA are both 0 or 1, they still are after
  \<^verbatim>\<open>spi_set_cpol\<close> and \<^verbatim>\<open>spi_set_cpha\<close> with any byte, after \<^verbatim>\<open>spi_set_mode\<close> with any
  argument, and after every other operation of the header (the blocking ones when they
  return). With an argument above 1, \<^verbatim>\<open>spi_set_cpol\<close> and \<^verbatim>\<open>spi_set_cpha\<close> return the
  state they were given, with no access made; so does \<^verbatim>\<open>spi_set_mode\<close> with an argument
  that is none of the four enumerators.
\<close>

theorem spi_inv_preserved:
  "(spi_inv (regs spi) \<longrightarrow>
      spi_inv (regs (spi_set_cpol spi v)) \<and>
      spi_inv (regs (spi_set_cpha spi v)) \<and>
      spi_inv (regs (spi_set_mode spi mode)) \<and>
      spi_inv (regs (spi_select spi peripheral_id)) \<and>
      spi_inv (regs (spi_deselect spi)) \<and>
      spi_inv (regs (spi_set_clock spi conf)) \<and>
      spi_inv (regs (snd (spi_get_cpol spi))) \<and>
      spi_inv (regs (snd (spi_get_cpha spi))) \<and>
      spi_inv (regs (snd (spi_get_mode spi))) \<and>
      spi_inv (regs (snd (spi_get_cs spi))) \<and>
      spi_inv (regs (snd (spi_get_clock spi))) \<and>
      spi_inv (regs (snd (spi_is_ready ins spi))) \<and>
      (spi_wait_ready ins spi = Some s \<longrightarrow> spi_inv (regs s)) \<and>
      (spi_write ins spi b = Some s' \<longrightarrow> spi_inv (regs s')) \<and>
      (spi_transfer ins spi b = Some (r, s'') \<longrightarrow> spi_inv (regs s''))) \<and>
   (1 < v \<longrightarrow> spi_set_cpol spi v = spi \<and> spi_set_cpha spi v = spi) \<and>
   (3 < mode \<longrightarrow> spi_set_mode spi mode = spi)"
proof -
  have "spi_inv (regs spi) \<Longrightarrow> spi_wait_ready ins spi = Some s \<Longrightarrow> spi_inv (regs s)"
    using spi_wait_ready_cases [of ins spi] by (auto simp: spi_inv_def)
  moreover have "1 < v \<longrightarrow> spi_set_cpol spi v = spi \<and> spi_set_cpha spi v = spi"
    by (auto simp: spi_set_cpol_def spi_set_cpha_def)
  ultimately show ?thesis
    using spi_inv_config [of spi] spi_inv_is_ready [of spi ins]
      spi_inv_write [of spi ins b s'] spi_inv_transfer [of spi ins b r s'']
      spi_set_mode_unknown [of mode spi]
    by (simp add: spi_inv_getters)
qed

text \<open>
  The statement used on the controller after reset, with the out-of-range arguments 7
  and 9 and the valid mode 2.
\<close>

theorem spi_inv_preserved_witness:
  "spi_inv (regs spi_reset) \<and> (1 :: u8) < 7 \<and> (3 :: u32) < 9 \<and>
   spi_set_cpol spi_reset 7 = spi_reset \<and> spi_set_cpha spi_reset 7 = spi_reset \<and>
   spi_set_mode spi_reset 9 = spi_reset \<and>
   spi_inv (regs (spi_set_mode spi_reset SPI_MODE2_CPOL1_CPHA0)) \<and>
   CPOL (regs (spi_set_mode spi_reset SPI_MODE2_CPOL1_CPHA0)) = 1"
proof -
  have inv: "spi_inv (regs spi_reset)"
    by (simp add: spi_inv_def spi_reset_def)
  have "spi_set_cpol spi_reset 7 = spi_reset \<and> spi_set_cpha spi_reset 7 = spi_reset"
    and "spi_set_mode spi_reset 9 = spi_reset"
    using spi_inv_preserved [of spi_reset 7 9] by simp_all
  moreover have "spi_inv (regs (spi_set_mode spi_reset SPI_MODE2_CPOL1_CPHA0))"
    using spi_inv_preserved [of spi_reset 0 2] inv by simp
  ultimately show ?thesis
    using inv by (simp add: spi_set_mode_regs)
qed


section \<open>UART: the ready-polled write\<close>

lemma preceded_by_loads: "\<forall>x\<in>set tr. \<not> is_store x \<Longrightarrow> preceded_by a tr"
  by (simp add: preceded_by_def)

lemma preceded_by_append:
  assumes "preceded_by a xs" and "preceded_by a ys"
  shows "preceded_by a (xs @ ys)"
  unfolding preceded_by_def
proof (intro allI impI)
  fix i
  assume i: "i < length (xs @ ys)" and st: "is_store ((xs @ ys) ! i)"
  show "0 < i \<and> (xs @ ys) ! (i - 1) = a"
  proof (cases "i < length xs")
    case True
    then have "0 < i \<and> xs ! (i - 1) = a"
      using assms(1) st by (simp add: preceded_by_def nth_append)
    moreover have "i - 1 < length xs"
      using True by simp
    ultimately show ?thesis by (simp add: nth_append)
  next
    case False
    define j where "j = i - length xs"
    have ij: "i = length xs + j"
      using False by (simp add: j_def)
    have "j < length ys" and "is_store (ys ! j)"
      using i st by (simp_all add: ij)
    then have "0 < j \<and> ys ! (j - 1) = a"
      using assms(2) unfolding preceded_by_def by blast
    then have "0 < i" and "\<not> i - 1 < length xs" and "i - 1 - length xs = j - 1"
      and "ys ! (j - 1) = a"
      using ij by auto
    then show ?thesis by (simp only: nth_append if_False)
  qed
qed

lemma preceded_by_poll_store:
  "preceded_by (Load r v) (polls r ins k n @ [Load r v, Store r' x])"
proof (rule preceded_by_append)
  show "preceded_by (Load r v) (polls r ins k n)"
    by (rule preceded_by_loads) (auto simp: polls_def)
  show "preceded_by (Load r v) [Load r v, Store r' x]"
    by (auto simp: preceded_by_def less_Suc_eq)
qed

lemma filter_store_polls [simp]: "filter is_store (polls r ins k n) = []"
  by (simp add: polls_def)

lemmas uart_poll_defs = uart_ready_to_send_def mmio_poll_def mmio_store_def Let_def

lemma uart_write_returns:
  "ins (tick uart + n) = 1 \<Longrightarrow> \<forall>j<n. ins (tick uart + j) \<noteq> 1 \<Longrightarrow>
   uart_write ins uart d =
     Some (uart\<lparr>regs := (regs uart)\<lparr>UartController.WDATA := ucast d, UartController.READY := 1\<rparr>,
                tick := tick uart + Suc n,
                bus := bus uart @ polls UART_READY ins (tick uart) (Suc n)
                         @ [Store UART_WDATA (ucast d)]\<rparr>)"
proof (induction n arbitrary: uart)
  case 0
  then show ?case
    by (subst uart_write.simps) (simp add: uart_poll_defs polls_Suc)
next
  case (Suc n)
  let ?u1 = "snd (uart_ready_to_send ins uart)"
  have wait: "ins (tick uart) \<noteq> 1"
    using Suc.prems(2) by (metis add.right_neutral zero_less_Suc)
  have t1: "tick ?u1 = Suc (tick uart)"
    by (simp add: uart_poll_defs)
  have "ins (tick ?u1 + n) = 1" "\<forall>j<n. ins (tick ?u1 + j) \<noteq> 1"
    using Suc.prems by (simp_all add: t1) (metis Suc_less_eq add_Suc_right)
  then have "uart_write ins ?u1 d =
      Some (?u1\<lparr>regs := (regs ?u1)\<lparr>UartController.WDATA := ucast d, UartController.READY := 1\<rparr>,
                tick := tick ?u1 + Suc n,
                bus := bus ?u1 @ polls UART_READY ins (tick ?u1) (Suc n)
                         @ [Store UART_WDATA (ucast d)]\<rparr>)"
    by (rule Suc.IH)
  moreover have "uart_write ins uart d = uart_write ins ?u1 d"
    using wait by (subst uart_write.simps) (simp add: uart_poll_defs)
  ultimately show ?case
    by (simp add: uart_poll_defs polls_Suc [of _ _ "tick uart"])
qed

lemma uart_write_polled_one:
  assumes "uart_write ins uart d = Some u'"
  shows "\<exists>n. ins (tick uart + n) = 1"
proof (rule uart_write.raw_induct
    [where P = "\<lambda>ins uart d u'. \<exists>n. ins (tick uart + n) = 1", OF _ assms])
  fix wr :: "(nat \<Rightarrow> u32) \<Rightarrow> uart_mmio \<Rightarrow> u8 \<Rightarrow> uart_mmio option" and ins uart d u'
  assume IH: "\<And>ins uart d u'. wr ins uart d = Some u' \<Longrightarrow> \<exists>n. ins (tick uart + n) = 1"
    and step: "(case uart_ready_to_send ins uart of
                 (rdy, u1) \<Rightarrow>
                   if \<not> rdy then wr ins u1 d
                   else Some (mmio_store uart_wr UART_WDATA (ucast d) u1)) = Some u'"
  show "\<exists>n. ins (tick uart + n) = 1"
  proof (cases "ins (tick uart) = 1")
    case True
    then show ?thesis by (metis add.right_neutral)
  next
    case False
    then have "wr ins (snd (uart_ready_to_send ins uart)) d = Some u'"
      using step by (simp add: uart_poll_defs)
    then have "\<exists>n. ins (tick (snd (uart_ready_to_send ins uart)) + n) = 1"
      by (rule IH)
    then obtain n where "ins (Suc (tick uart) + n) = 1"
      by (auto simp: uart_poll_defs)
    then show ?thesis by (metis add_Suc_shift)
  qed
qed

lemma uart_write_hangs: "\<forall>n. ins (tick uart + n) \<noteq> 1 \<Longrightarrow> uart_write ins uart d = None"
  using uart_write_polled_one [of ins uart d] by (cases "uart_write ins uart d") auto

lemma uart_write_cases:
  "(uart_write ins uart d = None \<and> (\<forall>n. ins (tick uart + n) \<noteq> 1)) \<or>
   (\<exists>n. ins (tick uart + n) = 1 \<and> (\<forall>j<n. ins (tick uart + j) \<noteq> 1) \<and>
        uart_write ins uart d =
          Some (uart\<lparr>regs := (regs uart)\<lparr>UartController.WDATA := ucast d,
                                           UartController.READY := 1\<rparr>,
                     tick := tick uart + Suc n,
                     bus := bus uart @ polls UART_READY ins (tick uart) (Suc n)
                              @ [Store UART_WDATA (ucast d)]\<rparr>))"
proof (cases "\<exists>n. ins (tick uart + n) = 1")
  case True
  then obtain n where "ins (tick uart + n) = 1" "\<forall>j<n. ins (tick uart + j) \<noteq> 1"
    using first_occurrence [of ins "tick uart" 1] by blast
  then show ?thesis using uart_write_returns [of ins uart n d] by blast
next
  case False
  then show ?thesis by (simp add: uart_write_hangs)
qed

text \<open>What one returning call of \<^verbatim>\<open>uart_write\<close> adds to the log.\<close>

lemma uart_write_trace:
  assumes "uart_write ins uart d = Some u1"
  shows "\<exists>n. tick u1 = tick uart + Suc n \<and>
             bus u1 = bus uart @ polls UART_READY ins (tick uart) n
                        @ [Load UART_READY 1, Store UART_WDATA (ucast d)]"
proof -
  from assms obtain n where "ins (tick uart + n) = 1"
    and "u1 = uart\<lparr>regs := (regs uart)\<lparr>UartController.WDATA := ucast d,
                                         UartController.READY := 1\<rparr>,
                   tick := tick uart + Suc n,
                   bus := bus uart @ polls UART_READY ins (tick uart) (Suc n)
                            @ [Store UART_WDATA (ucast d)]\<rparr>"
    using uart_write_cases [of ins uart d] by auto
  then have "tick u1 = tick uart + Suc n \<and>
             bus u1 = bus uart @ polls UART_READY ins (tick uart) n
                        @ [Load UART_READY 1, Store UART_WDATA (ucast d)]"
    by (simp add: polls_snoc)
  then show ?thesis ..
qed

lemma uart_write_string_trace:
  assumes "0 \<notin> set bs" and "uart_write_string ins uart (bs @ 0 # rest) = Some res"
  shows "\<exists>u' tr. res = Inr u' \<and> bus u' = bus uart @ tr \<and>
           filter is_store tr = map (\<lambda>c. Store UART_WDATA (ucast c)) bs \<and>
           preceded_by (Load UART_READY 1) tr \<and>
           (\<forall>a\<in>set tr. \<exists>v. a = Load UART_READY v \<or> a = Store UART_WDATA v)"
  using assms
proof (induction bs arbitrary: uart)
  case Nil
  then have "res = Inr uart" by simp
  then show ?case by (simp add: preceded_by_def)
next
  case (Cons c cs)
  from Cons.prems have c: "c \<noteq> 0" and cs: "0 \<notin> set cs"
    by auto
  from Cons.prems(2) c obtain u1 where w: "uart_write ins uart c = Some u1"
    and rest: "uart_write_string ins u1 (cs @ 0 # rest) = Some res"
    by (cases "uart_write ins uart c") auto
  from uart_write_trace [OF w] obtain n where
    b1: "bus u1 = bus uart @ polls UART_READY ins (tick uart) n
                    @ [Load UART_READY 1, Store UART_WDATA (ucast c)]"
    by blast
  let ?one = "polls UART_READY ins (tick uart) n @ [Load UART_READY 1, Store UART_WDATA (ucast c)]"
  from Cons.IH [OF cs rest] obtain u' tr where res: "res = Inr u'"
    and b': "bus u' = bus u1 @ tr"
    and st: "filter is_store tr = map (\<lambda>c. Store UART_WDATA (ucast c)) cs"
    and pre: "preceded_by (Load UART_READY 1) tr"
    and kinds: "\<forall>a\<in>set tr. \<exists>v. a = Load UART_READY v \<or> a = Store UART_WDATA v"
    by blast
  have "bus u' = bus uart @ (?one @ tr)"
    by (simp add: b' b1)
  moreover have "filter is_store (?one @ tr) = map (\<lambda>c. Store UART_WDATA (ucast c)) (c # cs)"
    by (simp add: st)
  moreover have "preceded_by (Load UART_READY 1) (?one @ tr)"
    using preceded_by_poll_store pre by (rule preceded_by_append)
  moreover have "\<forall>a\<in>set (?one @ tr). \<exists>v. a = Load UART_READY v \<or> a = Store UART_WDATA v"
    using kinds by (auto simp: polls_def)
  ultimately show ?case using res by blast
qed

lemma uart_write_string_returns:
  assumes "\<forall>k. \<exists>n. ins (k + n) = 1" and "0 \<notin> set bs"
  shows "\<exists>u'. uart_write_string ins uart (bs @ 0 # rest) = Some (Inr u')"
  using assms(2)
proof (induction bs arbitrary: uart)
  case Nil
  show ?case by simp
next
  case (Cons c cs)
  from assms(1) have "\<exists>n. ins (tick uart + n) = 1" ..
  then obtain u1 where "uart_write ins uart c = Some u1"
    using uart_write_cases [of ins uart c] by auto
  moreover obtain u' where "uart_write_string ins u1 (cs @ 0 # rest) = Some (Inr u')"
    using Cons.IH [of u1] Cons.prems by auto
  ultimately show ?case using Cons.prems by auto
qed

lemma ucast_byte_eq_0: "(ucast (c :: u8) :: u32) = 0 \<longleftrightarrow> c = 0"
  by (metis u8_via_u32 ucast_0)

text \<open>
  Claim C5. Let the bytes at \<^verbatim>\<open>str\<close> be \<open>bs\<close>, none of them null, followed by a null
  byte and anything after it. \<^verbatim>\<open>uart_write_string\<close> never runs past the terminator; it
  returns whenever READY keeps coming back to 1; and when it returns, the stores it made
  are exactly the bytes of \<open>bs\<close> to WDATA, in order, each right after a load of READY that
  read 1, every other access being a load of READY, and no null byte was stored.
\<close>

theorem uart_write_string_polled_writes:
  "0 \<notin> set bs \<longrightarrow>
     uart_write_string ins uart (bs @ 0 # rest) \<noteq> Some (Inl OutOfBounds) \<and>
     ((\<forall>k. \<exists>n. ins (k + n) = 1) \<longrightarrow> uart_write_string ins uart (bs @ 0 # rest) \<noteq> None) \<and>
     (uart_write_string ins uart (bs @ 0 # rest) = Some (Inr u') \<longrightarrow>
        filter is_store (issued uart u') = map (\<lambda>c. Store UART_WDATA (ucast c)) bs \<and>
        preceded_by (Load UART_READY 1) (issued uart u') \<and>
        (\<forall>a\<in>set (issued uart u'). \<exists>v. a = Load UART_READY v \<or> a = Store UART_WDATA v) \<and>
        Store UART_WDATA 0 \<notin> set (issued uart u'))"
proof
  assume bs: "0 \<notin> set bs"
  have no_fault: "uart_write_string ins uart (bs @ 0 # rest) \<noteq> Some (Inl OutOfBounds)"
    using uart_write_string_trace [OF bs, of ins uart rest "Inl OutOfBounds"] by auto
  have returns: "(\<forall>k. \<exists>n. ins (k + n) = 1) \<longrightarrow>
      uart_write_string ins uart (bs @ 0 # rest) \<noteq> None"
    using uart_write_string_returns [of ins bs uart rest] bs by auto
  have trace: "uart_write_string ins uart (bs @ 0 # rest) = Some (Inr u') \<longrightarrow>
        filter is_store (issued uart u') = map (\<lambda>c. Store UART_WDATA (ucast c)) bs \<and>
        preceded_by (Load UART_READY 1) (issued uart u') \<and>
        (\<forall>a\<in>set (issued uart u'). \<exists>v. a = Load UART_READY v \<or> a = Store UART_WDATA v) \<and>
        Store UART_WDATA 0 \<notin> set (issued uart u')"
  proof
    assume "uart_write_string ins uart (bs @ 0 # rest) = Some (Inr u')"
    from uart_write_string_trace [OF bs this] obtain tr where b: "bus u' = bus uart @ tr"
      and st: "filter is_store tr = map (\<lambda>c. Store UART_WDATA (ucast c)) bs"
      and pre: "preceded_by (Load UART_READY 1) tr"
      and kinds: "\<forall>a\<in>set tr. \<exists>v. a = Load UART_READY v \<or> a = Store UART_WDATA v"
      by blast
    have tr: "issued uart u' = tr"
      using b by (rule issued_append)
    have "Store UART_WDATA 0 \<notin> set tr"
    proof
      assume "Store UART_WDATA 0 \<in> set tr"
      then have "Store UART_WDATA 0 \<in> set (filter is_store tr)"
        by simp
      then obtain c where "c \<in> set bs" and "(ucast c :: u32) = 0"
        unfolding st by auto
      then show False using bs by (simp add: ucast_byte_eq_0)
    qed
    then show "filter is_store (issued uart u') = map (\<lambda>c. Store UART_WDATA (ucast c)) bs \<and>
        preceded_by (Load UART_READY 1) (issued uart u') \<and>
        (\<forall>a\<in>set (issued uart u'). \<exists>v. a = Load UART_READY v \<or> a = Store UART_WDATA v) \<and>
        Store UART_WDATA 0 \<notin> set (issued uart u')"
      using st pre kinds by (simp add: tr)
  qed
  show "uart_write_string ins uart (bs @ 0 # rest) \<noteq> Some (Inl OutOfBounds) \<and>
     ((\<forall>k. \<exists>n. ins (k + n) = 1) \<longrightarrow> uart_write_string ins uart (bs @ 0 # rest) \<noteq> None) \<and>
     (uart_write_string ins uart (bs @ 0 # rest) = Some (Inr u') \<longrightarrow>
        filter is_store (issued uart u') = map (\<lambda>c. Store UART_WDATA (ucast c)) bs \<and>
        preceded_by (Load UART_READY 1) (issued uart u') \<and>
        (\<forall>a\<in>set (issued uart u'). \<exists>v. a = Load UART_READY v \<or> a = Store UART_WDATA v) \<and>
        Store UART_WDATA 0 \<notin> set (issued uart u'))"
    using no_fault returns trace by blast
qed

text \<open>
  The statement used on the string "AB" with a device whose READY reads 1 at every
  second poll: two stores, 'A' then 'B', each right after a poll that read 1.
\<close>

theorem uart_write_string_polled_writes_witness:
  "0 \<notin> set [0x41, 0x42 :: u8] \<and> (\<forall>k. \<exists>n. ready_alternating (k + n) = 1) \<and>
   uart_write_string ready_alternating uart_reset ([0x41, 0x42] @ 0 # []) =
     Some (Inr (uart_reset\<lparr>regs := (regs uart_reset)\<lparr>UartController.WDATA := 0x42,
                                                     UartController.READY := 1\<rparr>,
                  tick := 4,
                  bus := [Load UART_READY 0, Load UART_READY 1, Store UART_WDATA 0x41,
                          Load UART_READY 0, Load UART_READY 1, Store UART_WDATA 0x42]\<rparr>)) \<and>
   filter is_store [Load UART_READY 0, Load UART_READY 1, Store UART_WDATA 0x41,
                    Load UART_READY 0, Load UART_READY 1, Store UART_WDATA 0x42]
     = [Store UART_WDATA 0x41, Store UART_WDATA 0x42] \<and>
   preceded_by (Load UART_READY 1)
     [Load UART_READY 0, Load UART_READY 1, Store UART_WDATA 0x41,
      Load UART_READY 0, Load UART_READY 1, Store UART_WDATA 0x42]"
proof -
  let ?tr = "[Load UART_READY 0, Load UART_READY 1, Store UART_WDATA 0x41,
              Load UART_READY 0, Load UART_READY 1, Store UART_WDATA 0x42]"
  let ?u' = "uart_reset\<lparr>regs := (regs uart_reset)\<lparr>UartController.WDATA := 0x42,
                                                  UartController.READY := 1\<rparr>,
                tick := 4, bus := ?tr\<rparr>"
  have str: "0 \<notin> set [0x41, 0x42 :: u8]"
    by simp
  have ready: "\<forall>k. \<exists>n. ready_alternating (k + n) = 1"
  proof
    fix k
    have "ready_alternating (k + (if even k then 1 else 0)) = 1"
      by (simp add: ready_alternating_def)
    then show "\<exists>n. ready_alternating (k + n) = 1" ..
  qed
  have run: "uart_write_string ready_alternating uart_reset ([0x41, 0x42] @ 0 # []) = Some (Inr ?u')"
    by (simp add: uart_write.simps uart_poll_defs ready_alternating_def uart_reset_def)
  have new: "issued uart_reset ?u' = ?tr"
    by (simp add: issued_def uart_reset_def)
  from uart_write_string_polled_writes [of "[0x41, 0x42]" ready_alternating uart_reset "[]" ?u']
    str run
  have "filter is_store (issued uart_reset ?u') = [Store UART_WDATA 0x41, Store UART_WDATA 0x42]"
    and "preceded_by (Load UART_READY 1) (issued uart_reset ?u')"
    by simp_all
  then show ?thesis
    using str ready run unfolding new by blast
qed

section \<open>UART: the two versions of the header\<close>

lemmas uart_basic_poll_defs = uart_ready_def mmio_poll_def mmio_store_def Let_def

lemma uart_write_basic_returns:
  "ins (tick uart + n) = 1 \<Longrightarrow> \<forall>j<n. ins (tick uart + j) \<noteq> 1 \<Longrightarrow>
   uart_write_basic ins uart d =
     Some (uart\<lparr>regs := (regs uart)\<lparr>UartController_basic.WDATA := ucast d,
                                      UartController_basic.READY := 1\<rparr>,
                tick := tick uart + Suc n,
                bus := bus uart @ polls UARTB_READY ins (tick uart) (Suc n)
                         @ [Store UARTB_WDATA (ucast d)]\<rparr>)"
proof (induction n arbitrary: uart)
  case 0
  then show ?case
    by (subst uart_write_basic.simps) (simp add: uart_basic_poll_defs polls_Suc)
next
  case (Suc n)
  let ?u1 = "snd (uart_ready ins uart)"
  have wait: "ins (tick uart) \<noteq> 1"
    using Suc.prems(2) by (metis add.right_neutral zero_less_Suc)
  have t1: "tick ?u1 = Suc (tick uart)"
    by (simp add: uart_basic_poll_defs)
  have "ins (tick ?u1 + n) = 1" "\<forall>j<n. ins (tick ?u1 + j) \<noteq> 1"
    using Suc.prems by (simp_all add: t1) (metis Suc_less_eq add_Suc_right)
  then have "uart_write_basic ins ?u1 d =
      Some (?u1\<lparr>regs := (regs ?u1)\<lparr>UartController_basic.WDATA := ucast d,
                                     UartController_basic.READY := 1\<rparr>,
                tick := tick ?u1 + Suc n,
                bus := bus ?u1 @ polls UARTB_READY ins (tick ?u1) (Suc n)
                         @ [Store UARTB_WDATA (ucast d)]\<rparr>)"
    by (rule Suc.IH)
  moreover have "uart_write_basic ins uart d = uart_write_basic ins ?u1 d"
    using wait by (subst uart_write_basic.simps) (simp add: uart_basic_poll_defs)
  ultimately show ?case
    by (simp add: uart_basic_poll_defs polls_Suc [of _ _ "tick uart"])
qed

lemma uart_write_basic_polled_one:
  assumes "uart_write_basic ins uart d = Some u'"
  shows "\<exists>n. ins (tick uart + n) = 1"
proof (rule uart_write_basic.raw_induct
    [where P = "\<lambda>ins uart d u'. \<exists>n. ins (tick uart + n) = 1", OF _ assms])
  fix wr :: "(nat \<Rightarrow> u32) \<Rightarrow> uart_basic_mmio \<Rightarrow> u8 \<Rightarrow> uart_basic_mmio option"
    and ins uart d u'
  assume IH: "\<And>ins uart d u'. wr ins uart d = Some u' \<Longrightarrow> \<exists>n. ins (tick uart + n) = 1"
    and step: "(case uart_ready ins uart of
                 (rdy, u1) \<Rightarrow>
                   if \<not> rdy then wr ins u1 d
                   else Some (mmio_store uart_basic_wr UARTB_WDATA (ucast d) u1)) = Some u'"
  show "\<exists>n. ins (tick uart + n) = 1"
  proof (cases "ins (tick uart) = 1")
    case True
    then show ?thesis by (metis add.right_neutral)
  next
    case False
    then have "wr ins (snd (uart_ready ins uart)) d = Some u'"
      using step by (simp add: uart_basic_poll_defs)
    then have "\<exists>n. ins (tick (snd (uart_ready ins uart)) + n) = 1"
      by (rule IH)
    then obtain n where "ins (Suc (tick uart) + n) = 1"
      by (auto simp: uart_basic_poll_defs)
    then show ?thesis by (metis add_Suc_shift)
  qed
qed

lemma uart_write_basic_hangs:
  "\<forall>n. ins (tick uart + n) \<noteq> 1 \<Longrightarrow> uart_write_basic ins uart d = None"
  using uart_write_basic_polled_one [of ins uart d]
  by (cases "uart_write_basic ins uart d") auto

lemma offsets_agree_polls:
  "map (map_access uart_offset) (polls UART_READY ins k n)
     = map (map_access uart_basic_offset) (polls UARTB_READY ins k n)"
  by (simp add: polls_def)

text \<open>
  One call of each \<^verbatim>\<open>uart_write\<close> from the same position of the READY sequence: both
  hang, or both return at the same position after the same accesses.
\<close>

lemma uart_write_same:
  assumes "tick uart = tick ub"
  shows "(uart_write ins uart d = None \<and> uart_write_basic ins ub d = None) \<or>
         (\<exists>u' ub' tr trb. uart_write ins uart d = Some u' \<and>
             uart_write_basic ins ub d = Some ub' \<and> tick u' = tick ub' \<and>
             bus u' = bus uart @ tr \<and> bus ub' = bus ub @ trb \<and>
             map (map_access uart_offset) tr = map (map_access uart_basic_offset) trb)"
proof (cases "\<exists>n. ins (tick uart + n) = 1")
  case True
  then obtain n where n: "ins (tick uart + n) = 1" "\<forall>j<n. ins (tick uart + j) \<noteq> 1"
    using first_occurrence [of ins "tick uart" 1] by blast
  let ?tr = "polls UART_READY ins (tick uart) (Suc n) @ [Store UART_WDATA (ucast d)]"
  let ?trb = "polls UARTB_READY ins (tick ub) (Suc n) @ [Store UARTB_WDATA (ucast d)]"
  let ?u' = "uart\<lparr>regs := (regs uart)\<lparr>UartController.WDATA := ucast d,
                                       UartController.READY := 1\<rparr>,
                 tick := tick uart + Suc n, bus := bus uart @ ?tr\<rparr>"
  let ?ub' = "ub\<lparr>regs := (regs ub)\<lparr>UartController_basic.WDATA := ucast d,
                                   UartController_basic.READY := 1\<rparr>,
                tick := tick ub + Suc n, bus := bus ub @ ?trb\<rparr>"
  have "uart_write ins uart d = Some ?u'"
    using n by (rule uart_write_returns)
  moreover have "uart_write_basic ins ub d = Some ?ub'"
    using n unfolding assms by (rule uart_write_basic_returns)
  moreover have "tick ?u' = tick ?ub'" "bus ?u' = bus uart @ ?tr" "bus ?ub' = bus ub @ ?trb"
    by (simp_all add: assms)
  moreover have "map (map_access uart_offset) ?tr = map (map_access uart_basic_offset) ?trb"
    unfolding assms by (simp add: offsets_agree_polls del: polls_Suc)
  ultimately show ?thesis by blast
next
  case False
  then have "uart_write ins uart d = None"
    by (simp add: uart_write_hangs)
  moreover have "uart_write_basic ins ub d = None"
    using False unfolding assms by (simp add: uart_write_basic_hangs)
  ultimately show ?thesis by simp
qed

lemma uart_write_string_same:
  assumes "tick uart = tick ub"
  shows "(uart_write_string ins uart str = None \<and> uart_write_string_basic ins ub str = None) \<or>
         (uart_write_string ins uart str = Some (Inl OutOfBounds) \<and>
          uart_write_string_basic ins ub str = Some (Inl OutOfBounds)) \<or>
         (\<exists>u' ub' tr trb. uart_write_string ins uart str = Some (Inr u') \<and>
             uart_write_string_basic ins ub str = Some (Inr ub') \<and>
             bus u' = bus uart @ tr \<and> bus ub' = bus ub @ trb \<and>
             map (map_access uart_offset) tr = map (map_access uart_basic_offset) trb)"
  using assms
proof (induction str arbitrary: uart ub)
  case Nil
  show ?case by simp
next
  case (Cons c str)
  show ?case
  proof (cases "c = 0")
    case True
    then show ?thesis by simp
  next
    case False
    from uart_write_same [OF Cons.prems, of ins c] show ?thesis
    proof
      assume "uart_write ins uart c = None \<and> uart_write_basic ins ub c = None"
      then show ?thesis using False by simp
    next
      assume "\<exists>u' ub' tr trb. uart_write ins uart c = Some u' \<and>
             uart_write_basic ins ub c = Some ub' \<and> tick u' = tick ub' \<and>
             bus u' = bus uart @ tr \<and> bus ub' = bus ub @ trb \<and>
             map (map_access uart_offset) tr = map (map_access uart_basic_offset) trb"
      then obtain u1 ub1 tr1 trb1 where w: "uart_write ins uart c = Some u1"
        and wb: "uart_write_basic ins ub c = Some ub1" and t: "tick u1 = tick ub1"
        and b: "bus u1 = bus uart @ tr1" and bb: "bus ub1 = bus ub @ trb1"
        and m: "map (map_access uart_offset) tr1 = map (map_access uart_basic_offset) trb1"
        by blast
      have s: "uart_write_string ins uart (c # str) = uart_write_string ins u1 str"
        and sb: "uart_write_string_basic ins ub (c # str) = uart_write_string_basic ins ub1 str"
        using False w wb by simp_all
      from Cons.IH [OF t] show ?thesis
      proof (elim disjE exE conjE)
        assume "uart_write_string ins u1 str = None"
          and "uart_write_string_basic ins ub1 str = None"
        then show ?thesis unfolding s sb by simp
      next
        assume "uart_write_string ins u1 str = Some (Inl OutOfBounds)"
          and "uart_write_string_basic ins ub1 str = Some (Inl OutOfBounds)"
        then show ?thesis unfolding s sb by simp
      next
        fix u' ub' tr trb
        assume r: "uart_write_string ins u1 str = Some (Inr u')"
          and rb: "uart_write_string_basic ins ub1 str = Some (Inr ub')"
          and b': "bus u' = bus u1 @ tr" and bb': "bus ub' = bus ub1 @ trb"
          and m': "map (map_access uart_offset) tr = map (map_access uart_basic_offset) trb"
        have "bus u' = bus uart @ (tr1 @ tr)" "bus ub' = bus ub @ (trb1 @ trb)"
          by (simp_all add: b b' bb bb')
        moreover have "map (map_access uart_offset) (tr1 @ tr)
            = map (map_access uart_basic_offset) (trb1 @ trb)"
          by (simp add: m m')
        ultimately show ?thesis unfolding s sb using r rb by blast
      qed
    qed
  qed
qed

text \<open>
  Claim C10. Started at the same position of the same READY sequence and given the same
  byte or the same bytes, the functions of the two headers both hang, both run off the
  array, or both return, and then the accesses they made are the same loads and stores at
  the same offsets with the same values, in the same order.
\<close>

theorem uart_headers_same_accesses:
  "tick uart = tick ub \<longrightarrow>
     map_option (\<lambda>u'. map (map_access uart_offset) (issued uart u')) (uart_write ins uart d)
       = map_option (\<lambda>u'. map (map_access uart_basic_offset) (issued ub u'))
           (uart_write_basic ins ub d) \<and>
     map_option (map_sum id (\<lambda>u'. map (map_access uart_offset) (issued uart u')))
         (uart_write_string ins uart str)
       = map_option (map_sum id (\<lambda>u'. map (map_access uart_basic_offset) (issued ub u')))
           (uart_write_string_basic ins ub str)"
proof
  assume t: "tick uart = tick ub"
  have one: "map_option (\<lambda>u'. map (map_access uart_offset) (issued uart u')) (uart_write ins uart d)
       = map_option (\<lambda>u'. map (map_access uart_basic_offset) (issued ub u'))
           (uart_write_basic ins ub d)"
    using uart_write_same [OF t, of ins d] by (auto simp: issued_append)
  have many: "map_option (map_sum id (\<lambda>u'. map (map_access uart_offset) (issued uart u')))
         (uart_write_string ins uart str)
       = map_option (map_sum id (\<lambda>u'. map (map_access uart_basic_offset) (issued ub u')))
           (uart_write_string_basic ins ub str)"
    using uart_write_string_same [OF t, of ins str] by (auto simp: issued_append)
  show "map_option (\<lambda>u'. map (map_access uart_offset) (issued uart u')) (uart_write ins uart d)
       = map_option (\<lambda>u'. map (map_access uart_basic_offset) (issued ub u'))
           (uart_write_basic ins ub d) \<and>
     map_option (map_sum id (\<lambda>u'. map (map_access uart_offset) (issued uart u')))
         (uart_write_string ins uart str)
       = map_option (map_sum id (\<lambda>u'. map (map_access uart_basic_offset) (issued ub u')))
           (uart_write_string_basic ins ub str)"
    using one many by (rule conjI)
qed

text \<open>
  The statement used on the two controllers after reset and the string "AB": both
  headers make the six accesses load 0x08, load 0x08, store 0x00, twice over.
\<close>

theorem uart_headers_same_accesses_witness:
  "tick uart_reset = tick uart_basic_reset \<and>
   map_option (map_sum id (\<lambda>u'. map (map_access uart_offset) (issued uart_reset u')))
       (uart_write_string ready_alternating uart_reset [0x41, 0x42, 0])
     = Some (Inr [Load 8 0, Load 8 1, Store 0 0x41, Load 8 0, Load 8 1, Store 0 0x42]) \<and>
   map_option (map_sum id (\<lambda>u'. map (map_access uart_basic_offset) (issued uart_basic_reset u')))
       (uart_write_string_basic ready_alternating uart_basic_reset [0x41, 0x42, 0])
     = Some (Inr [Load 8 0, Load 8 1, Store 0 0x41, Load 8 0, Load 8 1, Store 0 0x42])"
proof -
  have t: "tick uart_reset = tick uart_basic_reset"
    by (simp add: uart_reset_def uart_basic_reset_def)
  have run: "map_option (map_sum id (\<lambda>u'. map (map_access uart_offset) (issued uart_reset u')))
       (uart_write_string ready_alternating uart_reset [0x41, 0x42, 0])
     = Some (Inr [Load 8 0, Load 8 1, Store 0 0x41, Load 8 0, Load 8 1, Store 0 0x42])"
    by (simp add: uart_write.simps uart_poll_defs ready_alternating_def uart_reset_def issued_def)
  from uart_headers_same_accesses
    [of uart_reset uart_basic_reset ready_alternating 0 "[0x41, 0x42, 0]"] t
  have "map_option (map_sum id (\<lambda>u'. map (map_access uart_offset) (issued uart_reset u')))
         (uart_write_string ready_alternating uart_reset [0x41, 0x42, 0])
       = map_option (map_sum id (\<lambda>u'. map (map_access uart_basic_offset)
           (issued uart_basic_reset u')))
         (uart_write_string_basic ready_alternating uart_basic_reset [0x41, 0x42, 0])"
    by simp
  then show ?thesis using t run by simp
qed


section \<open>GPIO: single stores to SET and CLR\<close>

lemma shl_u32_in_range: "unat n < 32 \<Longrightarrow> shl_u32 x n = Some (push_bit (unat n) x)"
  by (simp add: shl_u32_def)

lemma shl_u32_out_of_range: "32 \<le> unat n \<Longrightarrow> shl_u32 x n = None"
  by (simp add: shl_u32_def)

lemma gpio_write_as_set_clear:
  "gpio_write gpio pin_id HIGH = gpio_set gpio pin_id"
  "gpio_write gpio pin_id LOW = gpio_clear gpio pin_id"
  by (simp_all add: gpio_write_def gpio_set_def gpio_clear_def)

lemma gpio_write_undefined_shift:
  "32 \<le> unat pin_id \<Longrightarrow>
     gpio_write gpio pin_id LOW = None \<and> gpio_write gpio pin_id HIGH = None"
  by (simp add: gpio_write_def shl_u32_out_of_range)

text \<open>
  Claim C7, as amended. For a pin index below 32, \<^verbatim>\<open>gpio_write\<close> with LOW makes one
  access, a store of \<open>1 << pin_id\<close> to CLR, and with HIGH one access, a store of
  \<open>1 << pin_id\<close> to SET. With any other value it returns the state it was given, with no
  access made, whatever the pin index. For a pin index of 32 or more with LOW or HIGH the
  shift is undefined in C, and the call has no result.
\<close>

theorem gpio_write_single_store:
  "(unat pin_id < 32 \<longrightarrow>
      gpio_write gpio pin_id LOW
        = Some (mmio_store gpio_wr GPIO_CLR (push_bit (unat pin_id) 1) gpio) \<and>
      issued gpio (mmio_store gpio_wr GPIO_CLR (push_bit (unat pin_id) 1) gpio)
        = [Store GPIO_CLR (push_bit (unat pin_id) 1)] \<and>
      gpio_write gpio pin_id HIGH
        = Some (mmio_store gpio_wr GPIO_SET (push_bit (unat pin_id) 1) gpio) \<and>
      issued gpio (mmio_store gpio_wr GPIO_SET (push_bit (unat pin_id) 1) gpio)
        = [Store GPIO_SET (push_bit (unat pin_id) 1)]) \<and>
   (32 \<le> unat pin_id \<longrightarrow>
      gpio_write gpio pin_id LOW = None \<and> gpio_write gpio pin_id HIGH = None) \<and>
   (val \<noteq> LOW \<and> val \<noteq> HIGH \<longrightarrow> gpio_write gpio pin_id val = Some gpio)"
proof -
  have "unat pin_id < 32 \<Longrightarrow>
      gpio_write gpio pin_id LOW
        = Some (mmio_store gpio_wr GPIO_CLR (push_bit (unat pin_id) 1) gpio) \<and>
      gpio_write gpio pin_id HIGH
        = Some (mmio_store gpio_wr GPIO_SET (push_bit (unat pin_id) 1) gpio)"
    by (simp add: gpio_write_def shl_u32_in_range)
  moreover have "val \<noteq> LOW \<and> val \<noteq> HIGH \<Longrightarrow> gpio_write gpio pin_id val = Some gpio"
    by (simp add: gpio_write_def)
  ultimately show ?thesis
    using gpio_write_undefined_shift [of pin_id gpio] by simp
qed

text \<open>
  The amended statement used on pin 5 of the controller after reset, and with the value 2
  on pins 5 and 40.
\<close>

theorem gpio_write_single_store_witness:
  "unat (5 :: u32) < 32 \<and> 32 \<le> unat (40 :: u32) \<and> (2 :: u32) \<noteq> LOW \<and> (2 :: u32) \<noteq> HIGH \<and>
   gpio_write gpio_reset 5 LOW = Some (gpio_reset\<lparr>bus := [Store GPIO_CLR 0x20]\<rparr>) \<and>
   gpio_write gpio_reset 5 HIGH
     = Some (gpio_reset\<lparr>regs := (regs gpio_reset)\<lparr>OUT := 0x20\<rparr>, bus := [Store GPIO_SET 0x20]\<rparr>) \<and>
   gpio_write gpio_reset 5 2 = Some gpio_reset \<and>
   gpio_write gpio_reset 40 2 = Some gpio_reset"
  using gpio_write_single_store [of 5 gpio_reset 2] gpio_write_single_store [of 40 gpio_reset 2]
  by (simp add: mmio_store_def gpio_reset_def)

text \<open>
  Claim C7 as stated fails for a pin index outside 0..31: \<^verbatim>\<open>gpio_write\<close> has no range
  check, and on pin 40 with HIGH or LOW the shift \<open>1 << 40\<close> of a 32-bit operand is
  undefined, so no store of a defined word is made.
\<close>

theorem gpio_write_pin_out_of_range:
  "shl_u32 0x1 40 = None \<and>
   gpio_write gpio_reset 40 HIGH = None \<and>
   gpio_write gpio_reset 40 LOW = None"
  by (simp add: gpio_write_def shl_u32_def)

section \<open>GPIO: the group store to SET\<close>





end
